theory Spec2Isabelle
  imports Complex_Main "HOL-Library.Word" "HOL-Library.Sublist"
begin

section \<open>Shared turn state (app/core/state.py)\<close>

text \<open>
  \<^verbatim>\<open>AppState\<close> holds the private flag \<^verbatim>\<open>_is_bot_speaking\<close> and the
  \<^verbatim>\<open>threading.Event\<close> \<^verbatim>\<open>interrupt_event\<close>. Every method body runs under the lock or is a
  single event operation, and all callers live on one asyncio event loop, so each method is
  one atomic state transformer.
\<close>

record AppState =
  bot_speaking :: bool
  interrupt_event :: bool

definition AppState_init :: AppState where
  "AppState_init = \<lparr>bot_speaking = False, interrupt_event = False\<rparr>"

definition is_bot_speaking :: "AppState \<Rightarrow> bool" where
  "is_bot_speaking s = bot_speaking s"

definition start_bot_speech :: "AppState \<Rightarrow> AppState" where
  "start_bot_speech s = s\<lparr>bot_speaking := True, interrupt_event := False\<rparr>"

definition stop_bot_speech :: "AppState \<Rightarrow> AppState" where
  "stop_bot_speech s = s\<lparr>bot_speaking := False, interrupt_event := False\<rparr>"

definition interrupt :: "AppState \<Rightarrow> AppState" where
  "interrupt s = (if is_bot_speaking s then s\<lparr>interrupt_event := True\<rparr> else s)"

definition was_interrupted :: "AppState \<Rightarrow> bool" where
  "was_interrupted s = interrupt_event s"

text \<open>A call of one of the five methods; the two queries leave the state as it is.\<close>

datatype ts_op = StartSpeaking | StopSpeaking | SignalInterrupt | IsSpeaking | WasInterrupted

fun apply_ts_op :: "ts_op \<Rightarrow> AppState \<Rightarrow> AppState" where
  "apply_ts_op StartSpeaking s = start_bot_speech s"
| "apply_ts_op StopSpeaking s = stop_bot_speech s"
| "apply_ts_op SignalInterrupt s = interrupt s"
| "apply_ts_op IsSpeaking s = s"
| "apply_ts_op WasInterrupted s = s"

fun run_ts_ops :: "ts_op list \<Rightarrow> AppState \<Rightarrow> AppState" where
  "run_ts_ops [] s = s"
| "run_ts_ops (x # xs) s = run_ts_ops xs (apply_ts_op x s)"


section \<open>Audio framing (app/handlers/websocket_handler.py, lines 67-71)\<close>

type_synonym byte = "8 word"
type_synonym bytes = "byte list"

definition VAD_CHUNK_SIZE_BYTES :: nat where
  "VAD_CHUNK_SIZE_BYTES = 512"

text \<open>
  One test of the \<^verbatim>\<open>while len(self.audio_buffer) >= self.VAD_CHUNK_SIZE_BYTES\<close> loop together
  with the two slices of its body: the frame cut from the front and the buffer that stays.
\<close>

definition take_frame :: "bytes \<Rightarrow> (bytes \<times> bytes) option" where
  "take_frame buf =
     (if length buf \<ge> VAD_CHUNK_SIZE_BYTES
      then Some (take VAD_CHUNK_SIZE_BYTES buf, drop VAD_CHUNK_SIZE_BYTES buf)
      else None)"

text \<open>The whole inner loop: the frames cut, in order, and the buffer left at its exit.\<close>

function take_frames :: "bytes \<Rightarrow> bytes list \<times> bytes" where
  "take_frames buf =
     (case take_frame buf of
        None \<Rightarrow> ([], buf)
      | Some (chunk_to_process, rest) \<Rightarrow>
          (case take_frames rest of (fs, r) \<Rightarrow> (chunk_to_process # fs, r)))"
  by pat_completeness auto
termination
  by (relation "measure length")
     (auto simp: take_frame_def VAD_CHUNK_SIZE_BYTES_def split: if_splits)

declare take_frames.simps [simp del]

text \<open>
  The outer \<^verbatim>\<open>async for raw_chunk in self.websocket\<close> loop, restricted to the buffer:
  \<^verbatim>\<open>self.audio_buffer += raw_chunk\<close>, then the inner loop.
\<close>

fun feed_chunks :: "bytes \<Rightarrow> bytes list \<Rightarrow> bytes list \<times> bytes" where
  "feed_chunks buf [] = ([], buf)"
| "feed_chunks buf (raw_chunk # later) =
     (case take_frames (buf @ raw_chunk) of
        (fs, r) \<Rightarrow> (case feed_chunks r later of (gs, r') \<Rightarrow> (fs @ gs, r')))"


section \<open>Text helpers of the response path (Python str and re)\<close>

text \<open>
  Text is a list of characters with code points below 256. \<^verbatim>\<open>str.strip()\<close> without
  argument and the class \<^verbatim>\<open>\s\<close> of a str pattern use the same predicate,
  \<^verbatim>\<open>str.isspace\<close>, which holds for exactly these code points in that range.
\<close>

definition is_space :: "char \<Rightarrow> bool" where
  "is_space c \<longleftrightarrow>
     c \<in> {CHR 0x09, CHR 0x0A, CHR 0x0B, CHR 0x0C, CHR 0x0D, CHR 0x1C, CHR 0x1D, CHR 0x1E,
          CHR 0x1F, CHR 0x20, CHR 0x85, CHR 0xA0}"

definition strip :: "string \<Rightarrow> string" where
  "strip s = rev (dropWhile is_space (rev (dropWhile is_space s)))"

text \<open>
  \<^verbatim>\<open>split_pattern = re.compile(r'([.?!]\s*|\s*,\s*|\n)')\<close>. \<open>match_delim s\<close> is the length of
  the match of the pattern at the start of \<open>s\<close>, if there is one. The alternatives are
  tried in order and every \<^verbatim>\<open>\s*\<close> is greedy; giving back white space never helps the
  second alternative, since the character it would then need to be a comma is white space.
\<close>

definition match_delim :: "string \<Rightarrow> nat option" where
  "match_delim s =
     (case s of
        [] \<Rightarrow> None
      | c # cs \<Rightarrow>
          if c \<in> {CHR ''.'', CHR ''?'', CHR ''!''}
          then Some (1 + length (takeWhile is_space cs))
          else (case dropWhile is_space s of
                  d # after \<Rightarrow>
                    if d = CHR '',''
                    then Some (length (takeWhile is_space s) + 1 + length (takeWhile is_space after))
                    else if c = CHR 0x0A then Some 1 else None
                | [] \<Rightarrow> if c = CHR 0x0A then Some 1 else None))"

text \<open>
  \<^verbatim>\<open>split_pattern.split(buffer)\<close>: the text before each match, the match itself (the
  pattern is one capture group), and at the end the text after the last match. The search
  goes left to right; \<open>piece\<close> is the text passed over since the last match. The pattern
  matches no empty string.
\<close>

function split_from :: "string \<Rightarrow> string \<Rightarrow> string list" where
  "split_from piece [] = [piece]"
| "split_from piece (c # cs) =
     (case match_delim (c # cs) of
        None \<Rightarrow> split_from (piece @ [c]) cs
      | Some n \<Rightarrow> piece # take n (c # cs) # split_from [] (drop n (c # cs)))"
  by pat_completeness auto
termination
  by (relation "measure (\<lambda>(piece, s). length s)")
     (auto simp: match_delim_def split: list.splits if_splits)

definition re_split :: "string \<Rightarrow> string list" where
  "re_split buffer = split_from [] buffer"

text \<open>
  The loop \<^verbatim>\<open>for i in range(0, len(processed_parts), 2)\<close> of \<^verbatim>\<open>_to_chunk_generator\<close>: the
  chunks it yields, in order.
\<close>

fun emit_pairs :: "string list \<Rightarrow> string list" where
  "emit_pairs [] = []"
| "emit_pairs [sentence] =
     (if strip sentence \<noteq> [] then [strip sentence @ strip []] else [])"
| "emit_pairs (sentence # delimiter # parts) =
     (if strip sentence \<noteq> [] then [strip sentence @ strip delimiter] else [])
     @ emit_pairs parts"

text \<open>
  The body of the fragment loop for one non-empty fragment (lines 291-303): the chunks
  yielded and the new buffer. \<^verbatim>\<open>parts[-1] or ""\<close> is \<^verbatim>\<open>parts[-1]\<close>, a string.
\<close>

definition split_buffer :: "string \<Rightarrow> string \<Rightarrow> string list \<times> string" where
  "split_buffer buffer text_chunk =
     (let parts = re_split (buffer @ text_chunk);
          processed_parts = butlast parts
      in (emit_pairs processed_parts, last parts))"

text \<open>
  \<^verbatim>\<open>_to_chunk_generator\<close> alone, as a function of what it observes: every item of the stream
  comes with the value \<^verbatim>\<open>was_interrupted()\<close> has when the item arrives (line 285), and
  \<open>at_end\<close> is its value when the stream is exhausted (line 306). After the \<^verbatim>\<open>break\<close>
  the check of line 306 follows with no suspension in between, so nothing is flushed.
\<close>

fun to_chunk_generator :: "string \<Rightarrow> (bool \<times> string) list \<Rightarrow> bool \<Rightarrow> string list" where
  "to_chunk_generator buffer [] at_end =
     (if strip buffer \<noteq> [] \<and> \<not> at_end then [strip buffer] else [])"
| "to_chunk_generator buffer ((interrupted, text_chunk) # stream) at_end =
     (if interrupted then []
      else if text_chunk = [] then to_chunk_generator buffer stream at_end
      else (case split_buffer buffer text_chunk of
              (chunks, buffer') \<Rightarrow> chunks @ to_chunk_generator buffer' stream at_end))"

text \<open>\<^verbatim>\<open>re.sub(r'\*[^*]*\*', '', text)\<close> of \<^verbatim>\<open>speak_text\<close>.\<close>

function re_sub_star :: "string \<Rightarrow> string" where
  "re_sub_star [] = []"
| "re_sub_star (c # cs) =
     (if c = CHR ''*'' \<and> CHR ''*'' \<in> set cs
      then re_sub_star (tl (dropWhile (\<lambda>x. x \<noteq> CHR ''*'') cs))
      else c # re_sub_star cs)"
  by pat_completeness auto
termination
proof (relation "measure length")
  fix c :: char and cs :: string
  have "length (tl (dropWhile (\<lambda>x. x \<noteq> CHR ''*'') cs)) \<le> length cs"
    using length_dropWhile_le [of "\<lambda>x. x \<noteq> CHR ''*''" cs] by simp
  then show "(tl (dropWhile (\<lambda>x. x \<noteq> CHR ''*'') cs), c # cs) \<in> measure length" by simp
qed simp_all


section \<open>Speech synthesis and the response turn (polly_service.py, bedrock_service.py)\<close>

text \<open>
  The exceptions the response path tells apart. \<^verbatim>\<open>asyncio.CancelledError\<close> derives from
  \<^verbatim>\<open>BaseException\<close>, so \<^verbatim>\<open>except Exception\<close> does not catch it; the other two are
  \<^verbatim>\<open>Exception\<close>s.
\<close>

datatype exn = CancelledError | ConnectionClosed | OtherError

text \<open>
  A suspension point: while the coroutine waits, other tasks of the event loop call
  methods of the shared \<^verbatim>\<open>AppState\<close>; then the awaited call returns a value or raises
  (\<open>CancelledError\<close> when the task was cancelled meanwhile).
\<close>

type_synonym 'a awaited = "ts_op list \<times> (exn + 'a)"

text \<open>
  One round of the loop of \<^verbatim>\<open>_send_audio_to_client\<close>, as the audio stream and the
  connection answer it: the read of up to 8192 bytes, the send, the pacing sleep.
\<close>

record audio_step =
  read_step :: "bytes awaited"
  send_step :: "unit awaited"
  sleep_step :: "unit awaited"

text \<open>
  The collaborators of one turn: the fragment stream of the generation service (after its
  last item the stream ends, the tasks of \<open>gen_end\<close> running meanwhile), and the synthesis
  service, which answers its n-th call for a text with an audio stream or raises. An
  audio stream that has no round left reads as empty.
\<close>

record turn_env =
  gen :: "string awaited list"
  gen_end :: "ts_op list"
  polly :: "nat \<Rightarrow> string \<Rightarrow> exn + audio_step list"

text \<open>
  What a turn does to the outside, in order: the two calls on the turn state, each request
  to the synthesis service with its text, each block of audio sent to the client, each
  close of an audio stream. Console output is left out.
\<close>

datatype turn_event =
    StartSpeech | StopSpeech | Synthesize string | SendAudio bytes | CloseAudio

text \<open>
  The state a turn works on: the shared \<^verbatim>\<open>AppState\<close>, and as bookkeeping the events so
  far and the number of synthesis requests so far.
\<close>

record turn_state =
  app :: AppState
  events :: "turn_event list"
  synth_calls :: nat

definition others_run :: "ts_op list \<Rightarrow> turn_state \<Rightarrow> turn_state" where
  "others_run ops st = st\<lparr>app := run_ts_ops ops (app st)\<rparr>"

definition emit :: "turn_event \<Rightarrow> turn_state \<Rightarrow> turn_state" where
  "emit e st = st\<lparr>events := events st @ [e]\<rparr>"

text \<open>
  The \<^verbatim>\<open>try\<close> block of \<^verbatim>\<open>_send_audio_to_client\<close>: the exception that leaves it, if any.
\<close>

fun send_loop :: "audio_step list \<Rightarrow> turn_state \<Rightarrow> exn option \<times> turn_state" where
  "send_loop [] st = (None, st)"
| "send_loop (a # stream) st =
     (if was_interrupted (app st) then (None, st)
      else
        (let st1 = others_run (fst (read_step a)) st in
         (case snd (read_step a) of
            Inl e \<Rightarrow> (Some e, st1)
          | Inr data \<Rightarrow>
              if data = [] then (None, st1)
              else
                (let st2 = others_run (fst (send_step a)) st1 in
                 (case snd (send_step a) of
                    Inl e \<Rightarrow> (Some e, st2)
                  | Inr _ \<Rightarrow>
                      (let st3 = others_run (fst (sleep_step a)) (emit (SendAudio data) st2) in
                       (case snd (sleep_step a) of
                          Inl e \<Rightarrow> (Some e, st3)
                        | Inr _ \<Rightarrow> send_loop stream st3)))))))"

text \<open>
  \<^verbatim>\<open>_send_audio_to_client\<close>: every exception of the loop is handled here (cancellation
  and other errors are logged, a closed connection calls \<^verbatim>\<open>app_state.interrupt()\<close>), and
  the stream is closed in the \<^verbatim>\<open>finally\<close>.
\<close>

definition send_audio_to_client :: "audio_step list \<Rightarrow> turn_state \<Rightarrow> turn_state" where
  "send_audio_to_client audio_data_stream st =
     (case send_loop audio_data_stream st of
        (r, st1) \<Rightarrow>
          emit CloseAudio
            (case r of
               Some ConnectionClosed \<Rightarrow> st1\<lparr>app := interrupt (app st1)\<rparr>
             | _ \<Rightarrow> st1))"

text \<open>
  \<^verbatim>\<open>speak_text\<close>: the exception it raises, if any, and the state after it.
\<close>

definition speak_text :: "turn_env \<Rightarrow> string \<Rightarrow> turn_state \<Rightarrow> exn option \<times> turn_state" where
  "speak_text env text st =
     (let cleaned_text = re_sub_star text in
      if strip cleaned_text = [] then (None, st)
      else
        let st1 = (emit (Synthesize cleaned_text) st)\<lparr>synth_calls := synth_calls st + 1\<rparr> in
        case polly env (synth_calls st) cleaned_text of
          Inl e \<Rightarrow> (if e = CancelledError then (Some CancelledError, st1) else (None, st1))
        | Inr audio_stream \<Rightarrow> (None, send_audio_to_client audio_stream st1))"

text \<open>
  The body of \<^verbatim>\<open>async for chunk in chunk_stream\<close> in \<^verbatim>\<open>invoke_bedrock\<close>, for the chunks
  the generator yields between two fragments.
\<close>

datatype loop_exit = Continue | Break | Raise exn

fun speak_chunks :: "turn_env \<Rightarrow> string list \<Rightarrow> turn_state \<Rightarrow> loop_exit \<times> turn_state" where
  "speak_chunks env [] st = (Continue, st)"
| "speak_chunks env (chunk # chunks) st =
     (if was_interrupted (app st) then (Break, st)
      else if chunk \<noteq> [] \<and> strip chunk \<noteq> [] then
        (case speak_text env chunk st of
           (Some e, st1) \<Rightarrow> (Raise e, st1)
         | (None, st1) \<Rightarrow> speak_chunks env chunks st1)
      else speak_chunks env chunks st)"

text \<open>
  The \<^verbatim>\<open>try\<close> block of \<^verbatim>\<open>invoke_bedrock\<close>: the generator \<^verbatim>\<open>_to_chunk_generator\<close> and the
  loop that consumes it, run in their real interleaving. The result is the exception that
  leaves the block, if any.
\<close>

fun chunk_loop :: "turn_env \<Rightarrow> string \<Rightarrow> string awaited list \<Rightarrow> turn_state
    \<Rightarrow> exn option \<times> turn_state" where
  "chunk_loop env buffer [] st =
     (let st1 = others_run (gen_end env) st in
      if strip buffer \<noteq> [] \<and> \<not> was_interrupted (app st1)
      then (case speak_chunks env [strip buffer] st1 of
              (Raise e, st2) \<Rightarrow> (Some e, st2)
            | (_, st2) \<Rightarrow> (None, st2))
      else (None, st1))"
| "chunk_loop env buffer ((ops, item) # stream) st =
     (let st1 = others_run ops st in
      case item of
        Inl e \<Rightarrow> (Some e, st1)
      | Inr text_chunk \<Rightarrow>
          if was_interrupted (app st1) then (None, st1)
          else if text_chunk = [] then chunk_loop env buffer stream st1
          else
            (case split_buffer buffer text_chunk of
               (chunks, buffer') \<Rightarrow>
                 (case speak_chunks env chunks st1 of
                    (Continue, st2) \<Rightarrow> chunk_loop env buffer' stream st2
                  | (Break, st2) \<Rightarrow> (None, st2)
                  | (Raise e, st2) \<Rightarrow> (Some e, st2))))"

definition apology :: string where
  "apology = ''I'm sorry, a communication error occurred.''"

text \<open>
  \<^verbatim>\<open>invoke_bedrock\<close>, from its first statement: the exception that ends the task, if any,
  and the final state.
\<close>

definition invoke_bedrock :: "turn_env \<Rightarrow> turn_state \<Rightarrow> exn option \<times> turn_state" where
  "invoke_bedrock env st0 =
     (let st = emit StartSpeech (st0\<lparr>app := start_bot_speech (app st0)\<rparr>) in
      case chunk_loop env [] (gen env) st of
        (r, st1) \<Rightarrow>
          (case (case r of
                   None \<Rightarrow> (None, st1)
                 | Some CancelledError \<Rightarrow> (None, st1)
                 | Some e \<Rightarrow>
                     if \<not> was_interrupted (app st1) then speak_text env apology st1
                     else (None, st1)) of
             (r2, st2) \<Rightarrow> (r2, emit StopSpeech (st2\<lparr>app := stop_bot_speech (app st2)\<rparr>))))"


section \<open>The connection handler (app/handlers/websocket_handler.py)\<close>

text \<open>
  The configuration values the handler reads. Python floats are modelled by exact
  rationals; in the configuration of \<^verbatim>\<open>settings.py\<close> every intermediate value of the
  silence computation (31.25, 46.875) is a binary fraction, so no rounding occurs there.
\<close>

record config =
  samplerate :: int
  silence_sec :: rat
  vad_threshold :: rat


text \<open>\<^verbatim>\<open>int(x)\<close> of a float truncates towards zero.\<close>

definition py_int :: "rat \<Rightarrow> int" where
  "py_int x = (if 0 \<le> x then \<lfloor>x\<rfloor> else \<lceil>x\<rceil>)"

text \<open>
  Lines 90-91: \<^verbatim>\<open>chunks_per_second = self.samplerate / (self.VAD_CHUNK_SIZE_BYTES / 2)\<close>
  and the bound \<^verbatim>\<open>int(chunks_per_second * config['vad']['silence_sec'])\<close>, as a function of
  sample rate, frame size in bytes and silence threshold in seconds.
\<close>

definition chunks_per_second :: "int \<Rightarrow> nat \<Rightarrow> rat" where
  "chunks_per_second R frame_size = of_int R / (of_nat frame_size / 2)"

definition silence_limit :: "int \<Rightarrow> nat \<Rightarrow> rat \<Rightarrow> int" where
  "silence_limit R frame_size S = py_int (chunks_per_second R frame_size * S)"

text \<open>
  An \<^verbatim>\<open>asyncio.Task\<close> as the handler sees it: \<^verbatim>\<open>done()\<close>, and whether \<^verbatim>\<open>cancel()\<close> has been
  called on it. \<^verbatim>\<open>cancel()\<close> only requests cancellation: the task ends when the event
  loop next runs it.
\<close>

record task =
  task_done :: bool
  cancel_requested :: bool

definition new_task :: task where
  "new_task = \<lparr>task_done = False, cancel_requested = False\<rparr>"

definition cancel :: "task \<Rightarrow> task" where
  "cancel t = t\<lparr>cancel_requested := True\<rparr>"

datatype stream = TranscribeStream
datatype handler = TranscriptHandler

datatype conn_event =
    Received bytes
  | LaunchTurn string
  | BargeIn
  | CancelTurn
  | CancelTranscript
  | EndStream
  | SendAudioEvent bytes
  | SpeechDetected
  | EndOfSpeech

text \<open>
  What the surroundings do for one frame: the progress of the other tasks since the last
  frame (their calls on the shared \<^verbatim>\<open>AppState\<close>, and whether the response task and the
  transcript task have finished), the classifier's probability (\<open>None\<close>: conversion or
  model raised), and the outcome of each call the handler may await in this step. The
  handler reads shared state only before the first suspension of a step, so the progress
  of the other tasks is applied at its start.
\<close>

record frame_env =
  turn_ops :: "ts_op list"
  turn_finished :: bool
  transcript_finished :: bool
  speech_prob :: "rat option"
  send_audio_result :: "exn option"
  end_stream_result :: "exn option"
  start_result :: "exn option"
  transcript_result :: "exn + string list"

text \<open>
  The handler's variables: the shared \<^verbatim>\<open>AppState\<close>, \<^verbatim>\<open>self.bot_response_task\<close> and the
  locals of \<^verbatim>\<open>handle_connection\<close>. \<open>frames_seen\<close> (the number of frames processed) and
  \<open>trace\<close> (what the handler did, in order) are bookkeeping. The audio buffer is carried
  beside the session by the receive loop.
\<close>

record session =
  app_state :: AppState
  bot_response_task :: "task option"
  is_transcribing :: bool
  transcribe_stream :: "stream option"
  transcript_handler :: "handler option"
  transcript_task :: "task option"
  silence_frames :: int
  frames_seen :: nat
  trace :: "conn_event list"

definition log :: "conn_event \<Rightarrow> session \<Rightarrow> session" where
  "log e st = st\<lparr>trace := trace st @ [e]\<rparr>"

definition finish :: "bool \<Rightarrow> task option \<Rightarrow> task option" where
  "finish b t = (if b then map_option (\<lambda>t. t\<lparr>task_done := True\<rparr>) t else t)"

definition others_progress :: "frame_env \<Rightarrow> session \<Rightarrow> session" where
  "others_progress fe st =
     st\<lparr>app_state := run_ts_ops (turn_ops fe) (app_state st),
        bot_response_task := finish (turn_finished fe) (bot_response_task st),
        transcript_task := finish (transcript_finished fe) (transcript_task st)\<rparr>"

text \<open>\<^verbatim>\<open>_is_speech\<close>, given what the classifier answers for the chunk.\<close>

definition is_speech :: "config \<Rightarrow> rat option \<Rightarrow> bytes \<Rightarrow> bool" where
  "is_speech cfg prob chunk =
     (if length chunk < VAD_CHUNK_SIZE_BYTES then False
      else (case prob of None \<Rightarrow> False | Some p \<Rightarrow> p > vad_threshold cfg))"

text \<open>\<^verbatim>\<open>_handle_transcription\<close>: a non-empty text starts a response task.\<close>

definition handle_transcription :: "string \<Rightarrow> session \<Rightarrow> session" where
  "handle_transcription final_transcript st =
     (if final_transcript \<noteq> []
      then log (LaunchTurn final_transcript) (st\<lparr>bot_response_task := Some new_task\<rparr>)
      else st)"

definition live :: "task option \<Rightarrow> bool" where
  "live t = (case t of None \<Rightarrow> False | Some x \<Rightarrow> \<not> task_done x)"

definition reset_listening :: "session \<Rightarrow> session" where
  "reset_listening st =
     st\<lparr>is_transcribing := False, transcribe_stream := None,
        transcript_handler := None, transcript_task := None\<rparr>"

text \<open>Lines 75-84, the barge-in branch.\<close>

definition barge_in :: "frame_env \<Rightarrow> session \<Rightarrow> exn option \<times> session" where
  "barge_in fe st =
     (let st1 = log BargeIn st;
          st2 = (if live (bot_response_task st1)
                 then log CancelTurn
                        (st1\<lparr>bot_response_task := map_option cancel (bot_response_task st1),
                             app_state := interrupt (app_state st1)\<rparr>)
                 else st1);
          st3 = (if live (transcript_task st2)
                 then log CancelTranscript
                        (st2\<lparr>transcript_task := map_option cancel (transcript_task st2)\<rparr>)
                 else st2)
      in if transcribe_stream st3 \<noteq> None
         then (case end_stream_result fe of
                 Some e \<Rightarrow> (Some e, st3)
               | None \<Rightarrow> (None, reset_listening (log EndStream st3)))
         else (None, reset_listening st3))"

text \<open>
  \<^verbatim>\<open>TranscriptHandler.get_full_transcript\<close> with \<^verbatim>\<open>on_final_transcript\<close> bound to
  \<^verbatim>\<open>_handle_transcription\<close>; \<open>join_space\<close> is \<^verbatim>\<open>" ".join\<close>.
\<close>

fun join_space :: "string list \<Rightarrow> string" where
  "join_space [] = []"
| "join_space [x] = x"
| "join_space (x # y # ys) = x @ '' '' @ join_space (y # ys)"

definition get_full_transcript :: "string list \<Rightarrow> session \<Rightarrow> session" where
  "get_full_transcript full_transcript st =
     (let full = strip (join_space full_transcript)
      in if full \<noteq> [] then handle_transcription full st else st)"

text \<open>
  Lines 87-99, the branch taken while transcribing. A missing stream or handler makes the
  attribute access raise, a missing task the \<^verbatim>\<open>await\<close>.
\<close>

definition feed_frame :: "config \<Rightarrow> frame_env \<Rightarrow> bytes \<Rightarrow> bool \<Rightarrow> session
    \<Rightarrow> exn option \<times> session" where
  "feed_frame cfg fe chunk_to_process is_speech_chunk st =
     (if transcribe_stream st = None then (Some OtherError, st)
      else (case send_audio_result fe of
        Some e \<Rightarrow> (Some e, st)
      | None \<Rightarrow>
         (let st1 = log (SendAudioEvent chunk_to_process) st in
          if \<not> is_speech_chunk then
            (let st2 = st1\<lparr>silence_frames := silence_frames st1 + 1\<rparr> in
             if silence_frames st2
                  \<ge> silence_limit (samplerate cfg) VAD_CHUNK_SIZE_BYTES (silence_sec cfg)
             then
               (let st3 = log EndOfSpeech st2 in
                case end_stream_result fe of
                  Some e \<Rightarrow> (Some e, st3)
                | None \<Rightarrow>
                   (let st4 = log EndStream st3 in
                    if transcript_task st4 = None then (Some OtherError, st4)
                    else (case transcript_result fe of
                      Inl e \<Rightarrow> (Some e, st4)
                    | Inr full_transcript \<Rightarrow>
                        if transcript_handler st4 = None then (Some OtherError, st4)
                        else (None,
                              reset_listening (get_full_transcript full_transcript st4)))))
             else (None, st2))
          else (None, st1\<lparr>silence_frames := 0\<rparr>))))"

text \<open>Lines 102-108, speech while idle.\<close>

definition start_listening :: "frame_env \<Rightarrow> bytes \<Rightarrow> session \<Rightarrow> exn option \<times> session" where
  "start_listening fe chunk_to_process st =
     (let st1 = (log SpeechDetected st)\<lparr>is_transcribing := True, silence_frames := 0\<rparr> in
      case start_result fe of
        Some e \<Rightarrow> (Some e, st1)
      | None \<Rightarrow>
         (let st2 = st1\<lparr>transcribe_stream := Some TranscribeStream,
                         transcript_handler := Some TranscriptHandler,
                         transcript_task := Some new_task\<rparr> in
          case send_audio_result fe of
            Some e \<Rightarrow> (Some e, st2)
          | None \<Rightarrow> (None, log (SendAudioEvent chunk_to_process) st2)))"

text \<open>Lines 72-108: one frame.\<close>

definition process_frame :: "config \<Rightarrow> frame_env \<Rightarrow> bytes \<Rightarrow> session
    \<Rightarrow> exn option \<times> session" where
  "process_frame cfg fe chunk_to_process st0 =
     (let st = others_progress fe st0;
          is_speech_chunk = is_speech cfg (speech_prob fe) chunk_to_process
      in if is_bot_speaking (app_state st) \<and> is_speech_chunk then barge_in fe st
         else if is_transcribing st then feed_frame cfg fe chunk_to_process is_speech_chunk st
         else if is_speech_chunk then start_listening fe chunk_to_process st
         else (None, st))"







section \<open>Notions used to state the properties\<close>

text \<open>A text with all white space deleted, and with the delimiter characters deleted too.\<close>

definition squeeze :: "string \<Rightarrow> string" where
  "squeeze s = filter (\<lambda>c. \<not> is_space c) s"

definition is_delim_char :: "char \<Rightarrow> bool" where
  "is_delim_char c \<longleftrightarrow> c \<in> {CHR ''.'', CHR ''?'', CHR ''!'', CHR '',''}"

definition core :: "string \<Rightarrow> string" where
  "core s = filter (\<lambda>c. \<not> is_space c \<and> \<not> is_delim_char c) s"


text \<open>Collaborators and states of the examples.\<close>

definition turn_state_init :: turn_state where
  "turn_state_init = \<lparr>app = AppState_init, events = [], synth_calls = 0\<rparr>"

definition quiet :: "'a \<Rightarrow> 'a awaited" where
  "quiet x = ([], Inr x)"

definition audio_ok :: "bytes \<Rightarrow> audio_step" where
  "audio_ok d = \<lparr>read_step = quiet d, send_step = quiet (), sleep_step = quiet ()\<rparr>"

definition polly_down :: "nat \<Rightarrow> string \<Rightarrow> exn + audio_step list" where
  "polly_down n t = Inl OtherError"

definition polly_up :: "nat \<Rightarrow> string \<Rightarrow> exn + audio_step list" where
  "polly_up n t = Inr [audio_ok [1, 2, 3]]"

definition synthesis_fails :: turn_env where
  "synthesis_fails = \<lparr>gen = [quiet ''Hi.''], gen_end = [], polly = polly_down\<rparr>"

definition generation_fails :: turn_env where
  "generation_fails =
     \<lparr>gen = [quiet ''Hi. there'', ([], Inl OtherError)], gen_end = [], polly = polly_up\<rparr>"

text \<open>An utterance is being captured: the flag is set and stream, handler and task exist.\<close>

definition utterance_open :: "session \<Rightarrow> bool" where
  "utterance_open st \<longleftrightarrow>
     is_transcribing st \<and> transcribe_stream st \<noteq> None
     \<and> transcript_handler st \<noteq> None \<and> transcript_task st \<noteq> None"








section \<open>Properties of the turn state\<close>

lemma run_ts_ops_invariant:
  "(\<not> bot_speaking s \<longrightarrow> \<not> interrupt_event s) \<Longrightarrow>
   \<not> bot_speaking (run_ts_ops ops s) \<longrightarrow> \<not> interrupt_event (run_ts_ops ops s)"
proof (induction ops arbitrary: s)
  case Nil
  then show ?case by simp
next
  case (Cons x xs)
  have "\<not> bot_speaking (apply_ts_op x s) \<longrightarrow> \<not> interrupt_event (apply_ts_op x s)"
    using Cons.prems
    by (cases x)
       (simp_all add: start_bot_speech_def stop_bot_speech_def interrupt_def is_bot_speaking_def)
  from Cons.IH [OF this] show ?case by simp
qed

text \<open>
  C4. After any sequence of the five TurnState operations on a fresh \<^verbatim>\<open>AppState\<close>: if the
  speaking flag is false then \<^verbatim>\<open>was_interrupted()\<close> is false and \<^verbatim>\<open>interrupt()\<close> changes
  nothing; and \<^verbatim>\<open>start_bot_speech\<close> and \<^verbatim>\<open>stop_bot_speech\<close> each leave the interrupt flag
  cleared (and set the speaking flag to true, respectively false).
\<close>

theorem C4_turn_state_invariant:
  fixes ops :: "ts_op list"
  defines "s \<equiv> run_ts_ops ops AppState_init"
  shows "(\<not> is_bot_speaking s \<longrightarrow> \<not> was_interrupted s)
       \<and> (\<not> is_bot_speaking s \<longrightarrow> interrupt s = s)
       \<and> \<not> was_interrupted (start_bot_speech s) \<and> is_bot_speaking (start_bot_speech s)
       \<and> \<not> was_interrupted (stop_bot_speech s) \<and> \<not> is_bot_speaking (stop_bot_speech s)"
proof -
  have "\<not> bot_speaking s \<longrightarrow> \<not> interrupt_event s"
    unfolding s_def by (rule run_ts_ops_invariant) (simp add: AppState_init_def)
  then show ?thesis
    by (simp add: is_bot_speaking_def was_interrupted_def interrupt_def
        start_bot_speech_def stop_bot_speech_def)
qed

theorem C4_turn_state_invariant_witness:
  "\<not> is_bot_speaking (run_ts_ops [StartSpeaking, SignalInterrupt, WasInterrupted, StopSpeaking, SignalInterrupt] AppState_init)
   \<and> \<not> was_interrupted (run_ts_ops [StartSpeaking, SignalInterrupt, WasInterrupted, StopSpeaking, SignalInterrupt] AppState_init)
   \<and> was_interrupted (run_ts_ops [StartSpeaking, SignalInterrupt] AppState_init)
   \<and> \<not> was_interrupted (start_bot_speech (run_ts_ops [StartSpeaking, SignalInterrupt] AppState_init))"
  using C4_turn_state_invariant [of "[StartSpeaking, SignalInterrupt, WasInterrupted, StopSpeaking, SignalInterrupt]"]
        C4_turn_state_invariant [of "[StartSpeaking, SignalInterrupt]"]
  by (simp add: AppState_init_def is_bot_speaking_def was_interrupted_def interrupt_def
      start_bot_speech_def stop_bot_speech_def)


section \<open>Properties of the framing\<close>

lemma take_frames_short:
  "length buf < VAD_CHUNK_SIZE_BYTES \<Longrightarrow> take_frames buf = ([], buf)"
  by (subst take_frames.simps) (simp add: take_frame_def)

lemma take_frames_long:
  "VAD_CHUNK_SIZE_BYTES \<le> length buf \<Longrightarrow>
   take_frames buf =
     (take VAD_CHUNK_SIZE_BYTES buf # fst (take_frames (drop VAD_CHUNK_SIZE_BYTES buf)),
      snd (take_frames (drop VAD_CHUNK_SIZE_BYTES buf)))"
  by (subst take_frames.simps) (simp add: take_frame_def split: prod.splits)

lemma take_frames_concat:
  "concat (fst (take_frames buf)) @ snd (take_frames buf) = buf"
proof (induction buf rule: take_frames.induct)
  case (1 buf)
  show ?case
  proof (cases "VAD_CHUNK_SIZE_BYTES \<le> length buf")
    case True
    then have tf: "take_frame buf = Some (take VAD_CHUNK_SIZE_BYTES buf, drop VAD_CHUNK_SIZE_BYTES buf)"
      by (simp add: take_frame_def)
    from "1.IH" [OF tf refl]
    have "concat (fst (take_frames (drop VAD_CHUNK_SIZE_BYTES buf)))
            @ snd (take_frames (drop VAD_CHUNK_SIZE_BYTES buf)) = drop VAD_CHUNK_SIZE_BYTES buf" .
    then show ?thesis
      by (simp add: take_frames_long [OF True])
  next
    case False
    then show ?thesis by (simp add: take_frames_short)
  qed
qed

lemma take_frames_rest_short:
  "length (snd (take_frames buf)) < VAD_CHUNK_SIZE_BYTES"
proof (induction buf rule: take_frames.induct)
  case (1 buf)
  show ?case
  proof (cases "VAD_CHUNK_SIZE_BYTES \<le> length buf")
    case True
    then have tf: "take_frame buf = Some (take VAD_CHUNK_SIZE_BYTES buf, drop VAD_CHUNK_SIZE_BYTES buf)"
      by (simp add: take_frame_def)
    from "1.IH" [OF tf refl] show ?thesis
      by (simp add: take_frames_long [OF True])
  next
    case False
    then show ?thesis by (simp add: take_frames_short)
  qed
qed

lemma take_frames_frame_length:
  "f \<in> set (fst (take_frames buf)) \<Longrightarrow> length f = VAD_CHUNK_SIZE_BYTES"
proof (induction buf arbitrary: f rule: take_frames.induct)
  case (1 buf)
  show ?case
  proof (cases "VAD_CHUNK_SIZE_BYTES \<le> length buf")
    case True
    then have tf: "take_frame buf = Some (take VAD_CHUNK_SIZE_BYTES buf, drop VAD_CHUNK_SIZE_BYTES buf)"
      by (simp add: take_frame_def)
    from "1.prems" have "f = take VAD_CHUNK_SIZE_BYTES buf
        \<or> f \<in> set (fst (take_frames (drop VAD_CHUNK_SIZE_BYTES buf)))"
      by (simp add: take_frames_long [OF True])
    then show ?thesis
    proof
      assume "f = take VAD_CHUNK_SIZE_BYTES buf"
      then show ?thesis using True by simp
    next
      assume "f \<in> set (fst (take_frames (drop VAD_CHUNK_SIZE_BYTES buf)))"
      then show ?thesis by (rule "1.IH" [OF tf refl])
    qed
  next
    case False
    with "1.prems" show ?thesis by (simp add: take_frames_short)
  qed
qed

text \<open>Cutting frames from a buffer that holds a short remainder followed by new bytes.\<close>

lemma take_frames_append:
  "take_frames (snd (take_frames a) @ b) =
     (drop (length (fst (take_frames a))) (fst (take_frames (a @ b))), snd (take_frames (a @ b)))
   \<and> take (length (fst (take_frames a))) (fst (take_frames (a @ b))) = fst (take_frames a)"
proof (induction a rule: take_frames.induct)
  case (1 buf)
  show ?case
  proof (cases "VAD_CHUNK_SIZE_BYTES \<le> length buf")
    case True
    then have tf: "take_frame buf = Some (take VAD_CHUNK_SIZE_BYTES buf, drop VAD_CHUNK_SIZE_BYTES buf)"
      by (simp add: take_frame_def)
    have long: "VAD_CHUNK_SIZE_BYTES \<le> length (buf @ b)" using True by simp
    from "1.IH" [OF tf refl] show ?thesis
      using True by (simp add: take_frames_long [OF True] take_frames_long [OF long])
  next
    case False
    then show ?thesis by (simp add: take_frames_short)
  qed
qed

lemma feed_chunks_eq:
  "feed_chunks (snd (take_frames a)) chunks =
     (drop (length (fst (take_frames a))) (fst (take_frames (a @ concat chunks))),
      snd (take_frames (a @ concat chunks)))"
proof (induction chunks arbitrary: a)
  case Nil
  then show ?case by simp
next
  case (Cons c cs)
  let ?fa = "fst (take_frames a)"
  let ?fac = "fst (take_frames (a @ c))"
  let ?fall = "fst (take_frames (a @ c @ concat cs))"
  have step: "take_frames (snd (take_frames a) @ c) = (drop (length ?fa) ?fac, snd (take_frames (a @ c)))"
    and pre1: "take (length ?fa) ?fac = ?fa"
    using take_frames_append [of a c] by simp_all
  have pre2: "take (length ?fac) ?fall = ?fac"
    using take_frames_append [of "a @ c" "concat cs"] by simp
  have rest: "feed_chunks (snd (take_frames (a @ c))) cs =
      (drop (length ?fac) ?fall, snd (take_frames (a @ c @ concat cs)))"
    using Cons.IH [of "a @ c"] by simp
  have len: "length ?fa \<le> length ?fac"
  proof -
    have "length (take (length ?fa) ?fac) = length ?fa" by (simp only: pre1)
    then show ?thesis by simp
  qed
  have "drop (length ?fa) ?fac @ drop (length ?fac) ?fall = drop (length ?fa) ?fall"
  proof -
    have "?fall = ?fac @ drop (length ?fac) ?fall"
      using pre2 by (metis append_take_drop_id)
    then have "drop (length ?fa) ?fall = drop (length ?fa) (?fac @ drop (length ?fac) ?fall)"
      by simp
    also have "\<dots> = drop (length ?fa) ?fac @ drop (length ?fac) ?fall"
      using len by simp
    finally show ?thesis by simp
  qed
  then show ?case
    by (simp add: step rest)
qed

text \<open>
  C5. For every byte string, split in any way into inbound chunks: feeding the chunks one
  by one to an empty buffer cuts the same frames, in the same order, as feeding the whole
  byte string at once, and leaves the same remainder. Every frame has exactly
  \<^verbatim>\<open>VAD_CHUNK_SIZE_BYTES\<close> bytes, the remainder is shorter than that, and frames followed
  by remainder are the input bytes unchanged.
\<close>

theorem C5_chunk_boundary_independence:
  "feed_chunks [] chunks = feed_chunks [] [concat chunks]
   \<and> feed_chunks [] chunks = take_frames (concat chunks)
   \<and> list_all (\<lambda>f. length f = VAD_CHUNK_SIZE_BYTES) (fst (feed_chunks [] chunks))
   \<and> length (snd (feed_chunks [] chunks)) < VAD_CHUNK_SIZE_BYTES
   \<and> concat (fst (feed_chunks [] chunks)) @ snd (feed_chunks [] chunks) = concat chunks
   \<and> (length buf < VAD_CHUNK_SIZE_BYTES \<longrightarrow> take_frame buf = None \<and> feed_chunks buf [] = ([], buf))"
proof -
  have e: "take_frames ([] :: bytes) = ([], [])"
    by (rule take_frames_short) (simp add: VAD_CHUNK_SIZE_BYTES_def)
  have many: "feed_chunks [] chunks = take_frames (concat chunks)"
    using feed_chunks_eq [of "[]" chunks] by (simp add: e)
  have one: "feed_chunks [] [concat chunks] = take_frames (concat chunks)"
    using feed_chunks_eq [of "[]" "[concat chunks]"] by (simp add: e del: feed_chunks.simps)
  have la: "list_all (\<lambda>f. length f = VAD_CHUNK_SIZE_BYTES) (fst (take_frames (concat chunks)))"
    by (simp add: list_all_iff take_frames_frame_length)
  show ?thesis
    using many one la take_frames_rest_short [of "concat chunks"]
      take_frames_concat [of "concat chunks"]
    by (simp add: take_frame_def)
qed


theorem C5_chunk_boundary_independence_witness:
  "length [1, 2, 3 :: byte] < VAD_CHUNK_SIZE_BYTES
   \<and> take_frame [1, 2, 3] = None
   \<and> feed_chunks [1, 2, 3] [] = ([], [1, 2, 3])
   \<and> feed_chunks [] [replicate 500 1, replicate 600 2]
       = feed_chunks [] [replicate 500 1 @ replicate 600 2]
   \<and> length (snd (feed_chunks [] [replicate 500 1, replicate 600 2])) < VAD_CHUNK_SIZE_BYTES
   \<and> concat (fst (feed_chunks [] [replicate 500 1, replicate 600 2]))
         @ snd (feed_chunks [] [replicate 500 1, replicate 600 2])
       = replicate 500 1 @ replicate 600 2"
proof -
  have c: "concat [replicate 500 1, replicate 600 (2 :: byte)]
      = replicate 500 1 @ replicate 600 2" by simp
  have s: "length [1, 2, 3 :: byte] < VAD_CHUNK_SIZE_BYTES"
    by (simp add: VAD_CHUNK_SIZE_BYTES_def)
  from s C5_chunk_boundary_independence [of "[replicate 500 1, replicate 600 2]" "[1, 2, 3]"]
  show ?thesis unfolding c by blast
qed


section \<open>Cleaning and synthesis of one chunk\<close>

lemma re_sub_star_no_star: "CHR ''*'' \<notin> set s \<Longrightarrow> re_sub_star s = s"
  by (induction s) auto

lemma re_sub_star_pair:
  "CHR ''*'' \<notin> set pre \<Longrightarrow> CHR ''*'' \<notin> set mid \<Longrightarrow>
   re_sub_star (pre @ CHR ''*'' # mid @ CHR ''*'' # post) = pre @ re_sub_star post"
proof (induction pre)
  case Nil
  have "dropWhile (\<lambda>x. x \<noteq> CHR ''*'') (mid @ CHR ''*'' # post) = CHR ''*'' # post"
    using Nil.prems(2) by (induction mid) auto
  then show ?case by simp
next
  case (Cons c pre)
  then show ?case by auto
qed

lemma re_sub_star_few: "count_list s CHR ''*'' < 2 \<Longrightarrow> re_sub_star s = s"
proof (induction s)
  case Nil
  then show ?case by simp
next
  case (Cons c cs)
  show ?case
  proof (cases "c = CHR ''*''")
    case True
    with Cons.prems have "count_list cs CHR ''*'' = 0" by simp
    then have "CHR ''*'' \<notin> set cs" by (simp add: count_list_0_iff)
    then show ?thesis by (simp add: re_sub_star_no_star)
  next
    case False
    with Cons show ?thesis by simp
  qed
qed

lemma re_sub_star_count: "count_list (re_sub_star s) CHR ''*'' \<le> 1"
proof (induction s rule: re_sub_star.induct)
  case 1
  then show ?case by simp
next
  case (2 c cs)
  show ?case
  proof (cases "c = CHR ''*'' \<and> CHR ''*'' \<in> set cs")
    case True
    with 2 show ?thesis by simp
  next
    case False
    show ?thesis
    proof (cases "c = CHR ''*''")
      case True
      with False have ns: "CHR ''*'' \<notin> set cs" by simp
      then have "re_sub_star cs = cs" "count_list cs CHR ''*'' = 0"
        by (simp_all add: re_sub_star_no_star count_list_0_iff)
      with True ns show ?thesis by simp
    next
      case c: False
      with 2 False show ?thesis by simp
    qed
  qed
qed

lemma send_loop_events:
  "\<exists>audio. events (snd (send_loop stream st)) = events st @ audio
     \<and> (\<forall>x\<in>set audio. \<forall>t. x \<noteq> Synthesize t)"
proof (induction stream arbitrary: st)
  case Nil
  then show ?case by simp
next
  case (Cons a stream)
  let ?st3 = "others_run (fst (sleep_step a))
                (emit (SendAudio (projr (snd (read_step a))))
                  (others_run (fst (send_step a)) (others_run (fst (read_step a)) st)))"
  from Cons [of ?st3] obtain audio where
    "events (snd (send_loop stream ?st3)) = events ?st3 @ audio"
    "\<forall>x\<in>set audio. \<forall>t. x \<noteq> Synthesize t" by blast
  then have "events (snd (send_loop stream ?st3))
      = events st @ (SendAudio (projr (snd (read_step a))) # audio)
    \<and> (\<forall>x\<in>set (SendAudio (projr (snd (read_step a))) # audio). \<forall>t. x \<noteq> Synthesize t)"
    by (simp add: others_run_def emit_def)
  then have rec: "\<exists>audio. events (snd (send_loop stream ?st3)) = events st @ audio
     \<and> (\<forall>x\<in>set audio. \<forall>t. x \<noteq> Synthesize t)" by blast
  show ?case
    using rec
    by (auto simp: Let_def others_run_def emit_def split: sum.splits)
qed

lemma send_audio_to_client_events:
  "\<exists>audio. events (send_audio_to_client stream st) = events st @ audio
     \<and> (\<forall>x\<in>set audio. \<forall>t. x \<noteq> Synthesize t)"
proof -
  obtain r st1 where sl: "send_loop stream st = (r, st1)" by (cases "send_loop stream st")
  obtain audio where a: "events (snd (send_loop stream st)) = events st @ audio"
    "\<forall>x\<in>set audio. \<forall>t. x \<noteq> Synthesize t"
    using send_loop_events by blast
  have "events (send_audio_to_client stream st) = events st @ (audio @ [CloseAudio])"
    using a(1) sl
    by (simp add: send_audio_to_client_def emit_def split: option.splits exn.splits)
  moreover have "\<forall>x\<in>set (audio @ [CloseAudio]). \<forall>t. x \<noteq> Synthesize t"
    using a(2) by simp
  ultimately show ?thesis by blast
qed

lemma speak_text_events:
  "strip (re_sub_star chunk) \<noteq> [] \<Longrightarrow>
   \<exists>audio. events (snd (speak_text env chunk st)) = events st @ Synthesize (re_sub_star chunk) # audio
     \<and> (\<forall>x\<in>set audio. \<forall>t. x \<noteq> Synthesize t)"
proof -
  assume ne: "strip (re_sub_star chunk) \<noteq> []"
  let ?st1 = "(emit (Synthesize (re_sub_star chunk)) st)\<lparr>synth_calls := synth_calls st + 1\<rparr>"
  show ?thesis
  proof (cases "polly env (synth_calls st) (re_sub_star chunk)")
    case (Inl e)
    with ne show ?thesis by (simp add: speak_text_def emit_def Let_def)
  next
    case (Inr audio_stream)
    obtain audio where "events (send_audio_to_client audio_stream ?st1) = events ?st1 @ audio"
      "\<forall>x\<in>set audio. \<forall>t. x \<noteq> Synthesize t"
      using send_audio_to_client_events by blast
    with ne Inr show ?thesis by (simp add: speak_text_def emit_def Let_def)
  qed
qed

text \<open>
  C10. \<^verbatim>\<open>speak_text\<close> works on the text with the asterisk-delimited substrings removed:
  a blank result makes it return at once, with no synthesis call and no audio (the state,
  events included, is unchanged); otherwise the cleaned text is what is submitted to
  synthesis, once. The removal deletes each leftmost pair of asterisks with the
  asterisk-free text between them and goes on after it; a text with fewer than two
  asterisks is left as it is, and no two asterisks remain in the result.
\<close>

theorem C10_speak_text_cleaning:
  "(strip (re_sub_star chunk) = [] \<longrightarrow> speak_text env chunk st = (None, st))
   \<and> (strip (re_sub_star chunk) \<noteq> [] \<longrightarrow>
        (\<exists>audio. events (snd (speak_text env chunk st))
                   = events st @ Synthesize (re_sub_star chunk) # audio
               \<and> (\<forall>x\<in>set audio. \<forall>t. x \<noteq> Synthesize t)))
   \<and> (CHR ''*'' \<notin> set pre \<and> CHR ''*'' \<notin> set mid \<longrightarrow>
        re_sub_star (pre @ ''*'' @ mid @ ''*'' @ post) = pre @ re_sub_star post)
   \<and> (count_list chunk CHR ''*'' < 2 \<longrightarrow> re_sub_star chunk = chunk)
   \<and> count_list (re_sub_star chunk) CHR ''*'' \<le> 1"
  using speak_text_events [of chunk env st] re_sub_star_pair [of pre mid post]
    re_sub_star_few [of chunk] re_sub_star_count [of chunk]
  by (simp add: speak_text_def)

theorem C10_speak_text_cleaning_witness:
  "strip (re_sub_star ''*sigh* '') = []
   \<and> speak_text synthesis_fails ''*sigh* '' turn_state_init = (None, turn_state_init)
   \<and> strip (re_sub_star ''a *b* c'') \<noteq> []
   \<and> events (snd (speak_text synthesis_fails ''a *b* c'' turn_state_init))
       = [Synthesize ''a  c'']
   \<and> CHR ''*'' \<notin> set ''a '' \<and> CHR ''*'' \<notin> set ''b''
   \<and> re_sub_star (''a '' @ ''*'' @ ''b'' @ ''*'' @ '' c'') = ''a  c''
   \<and> count_list ''3 * 4'' CHR ''*'' < 2 \<and> re_sub_star ''3 * 4'' = ''3 * 4''"
  using C10_speak_text_cleaning [of "''*sigh* ''" synthesis_fails turn_state_init "''a ''" "''b''" "'' c''"]
    C10_speak_text_cleaning [of "''a *b* c''" synthesis_fails turn_state_init "''a ''" "''b''" "'' c''"]
    C10_speak_text_cleaning [of "''3 * 4''" synthesis_fails turn_state_init "''a ''" "''b''" "'' c''"]
  by (simp add: turn_state_init_def strip_def is_space_def speak_text_def synthesis_fails_def
      polly_down_def emit_def)


section \<open>The response turn\<close>

text \<open>
  C8. However a run of \<^verbatim>\<open>invoke_bedrock\<close> goes (normal end, interruption, cancellation
  delivered at any suspension point, an error of the generation stream, of the synthesis
  service or of the connection), its last action is \<^verbatim>\<open>stop_bot_speech()\<close>: the speaking
  flag and the interrupt flag are false afterwards.
\<close>

theorem C8_turn_always_stops:
  "events (snd (invoke_bedrock env st0)) \<noteq> []
   \<and> last (events (snd (invoke_bedrock env st0))) = StopSpeech
   \<and> \<not> is_bot_speaking (app (snd (invoke_bedrock env st0)))
   \<and> \<not> was_interrupted (app (snd (invoke_bedrock env st0)))"
  by (simp add: invoke_bedrock_def Let_def emit_def stop_bot_speech_def is_bot_speaking_def
      was_interrupted_def split: prod.splits option.splits exn.splits)


section \<open>Errors during a turn\<close>

lemma speak_text_raises:
  "speak_text env chunk st = (Some e, st1) \<Longrightarrow> e = CancelledError"
  by (auto simp: speak_text_def Let_def split: if_splits sum.splits)

lemma speak_chunks_raises:
  "speak_chunks env chunks st = (Raise e, st1) \<Longrightarrow> e = CancelledError"
proof (induction chunks arbitrary: st)
  case Nil
  then show ?case by simp
next
  case (Cons chunk chunks)
  show ?case
  proof (cases "speak_text env chunk st")
    case (Pair r st2)
    with Cons show ?thesis
      by (cases r) (auto split: if_splits dest: speak_text_raises)
  qed
qed

lemma chunk_loop_raises:
  "chunk_loop env buffer stream st = (Some e, st1) \<Longrightarrow> e \<noteq> CancelledError \<Longrightarrow>
   \<exists>ops. (ops, Inl e) \<in> set stream"
proof (induction stream arbitrary: buffer st)
  case Nil
  then show ?case
    by (auto simp: Let_def simp del: speak_chunks.simps
        split: if_splits prod.splits loop_exit.splits dest: speak_chunks_raises)
next
  case (Cons item stream)
  obtain ops x where item: "item = (ops, x)" by (cases item)
  show ?case
  proof (cases x)
    case (Inl e')
    with Cons.prems item show ?thesis by auto
  next
    case (Inr text_chunk)
    with Cons.prems item have
      "\<exists>buffer' st'. chunk_loop env buffer' stream st' = (Some e, st1)"
      by (auto simp: Let_def split: if_splits prod.splits loop_exit.splits
          dest: speak_chunks_raises)
    then obtain buffer' st' where "chunk_loop env buffer' stream st' = (Some e, st1)" by blast
    from Cons.IH [OF this Cons.prems(2)] show ?thesis by auto
  qed
qed

lemma apology_clean: "re_sub_star apology = apology" "strip apology \<noteq> []"
  by (simp_all add: re_sub_star_no_star apology_def strip_def is_space_def)

text \<open>
  C2 (as the code has it). The apology belongs to errors of the generation stream: when the
  \<^verbatim>\<open>try\<close> block of \<^verbatim>\<open>invoke_bedrock\<close> is left by an exception other than cancellation and
  the turn is not interrupted at that moment, the exception was raised by the generation
  stream, exactly one synthesis request follows, for the fixed apology text, and the turn
  ends with the speaking flag false. An error raised by the synthesis service for a chunk
  never leaves \<^verbatim>\<open>speak_text\<close>: the call returns normally after the one failed request,
  without audio and without apology, and the turn goes on with its next chunk.
\<close>

theorem C2_apology_on_generation_error:
  "(chunk_loop env [] (gen env) (emit StartSpeech (st0\<lparr>app := start_bot_speech (app st0)\<rparr>))
        = (Some e, st1)
      \<and> e \<noteq> CancelledError \<and> \<not> was_interrupted (app st1) \<longrightarrow>
      (\<exists>ops. (ops, Inl e) \<in> set (gen env))
      \<and> (\<exists>audio. events (snd (invoke_bedrock env st0))
                    = events st1 @ Synthesize apology # audio @ [StopSpeech]
                \<and> (\<forall>x\<in>set audio. \<forall>t. x \<noteq> Synthesize t))
      \<and> \<not> is_bot_speaking (app (snd (invoke_bedrock env st0))))
   \<and> (strip (re_sub_star chunk) \<noteq> []
      \<and> polly env (synth_calls st) (re_sub_star chunk) = Inl e' \<and> e' \<noteq> CancelledError \<longrightarrow>
      speak_text env chunk st
        = (None, (emit (Synthesize (re_sub_star chunk)) st)\<lparr>synth_calls := synth_calls st + 1\<rparr>))"
proof (intro conjI impI)
  assume h: "chunk_loop env [] (gen env) (emit StartSpeech (st0\<lparr>app := start_bot_speech (app st0)\<rparr>))
        = (Some e, st1) \<and> e \<noteq> CancelledError \<and> \<not> was_interrupted (app st1)"
  then show "\<exists>ops. (ops, Inl e) \<in> set (gen env)"
    using chunk_loop_raises by blast
  obtain r2 st2 where sp: "speak_text env apology st1 = (r2, st2)"
    by (cases "speak_text env apology st1")
  have ib: "invoke_bedrock env st0 = (r2, emit StopSpeech (st2\<lparr>app := stop_bot_speech (app st2)\<rparr>))"
    using h sp by (cases e) (simp_all add: invoke_bedrock_def)
  obtain audio where a: "events st2 = events st1 @ Synthesize apology # audio"
    "\<forall>x\<in>set audio. \<forall>t. x \<noteq> Synthesize t"
    using speak_text_events [of apology env st1] sp by (auto simp: apology_clean)
  have "events (snd (invoke_bedrock env st0)) = events st1 @ Synthesize apology # audio @ [StopSpeech]"
    using a(1) by (simp add: ib emit_def)
  with a(2) show "\<exists>audio. events (snd (invoke_bedrock env st0))
                    = events st1 @ Synthesize apology # audio @ [StopSpeech]
                \<and> (\<forall>x\<in>set audio. \<forall>t. x \<noteq> Synthesize t)" by blast
  show "\<not> is_bot_speaking (app (snd (invoke_bedrock env st0)))"
    by (simp add: ib emit_def stop_bot_speech_def is_bot_speaking_def)
next
  assume "strip (re_sub_star chunk) \<noteq> []
      \<and> polly env (synth_calls st) (re_sub_star chunk) = Inl e' \<and> e' \<noteq> CancelledError"
  then show "speak_text env chunk st
        = (None, (emit (Synthesize (re_sub_star chunk)) st)\<lparr>synth_calls := synth_calls st + 1\<rparr>)"
    by (simp add: speak_text_def Let_def)
qed


theorem C2_apology_on_generation_error_witness:
  "chunk_loop generation_fails [] (gen generation_fails)
       (emit StartSpeech (turn_state_init\<lparr>app := start_bot_speech (app turn_state_init)\<rparr>))
     = (Some OtherError,
        \<lparr>app = \<lparr>bot_speaking = True, interrupt_event = False\<rparr>,
         events = [StartSpeech, Synthesize ''Hi.'', SendAudio [1, 2, 3], CloseAudio],
         synth_calls = 1\<rparr>)
   \<and> ([], Inl OtherError) \<in> set (gen generation_fails)
   \<and> events (snd (invoke_bedrock generation_fails turn_state_init))
       = [StartSpeech, Synthesize ''Hi.'', SendAudio [1, 2, 3], CloseAudio,
          Synthesize apology, SendAudio [1, 2, 3], CloseAudio, StopSpeech]
   \<and> \<not> is_bot_speaking (app (snd (invoke_bedrock generation_fails turn_state_init)))
   \<and> polly synthesis_fails (synth_calls turn_state_init) (re_sub_star ''Hi.'') = Inl OtherError
   \<and> speak_text synthesis_fails ''Hi.'' turn_state_init
       = (None, (emit (Synthesize ''Hi.'') turn_state_init)\<lparr>synth_calls := 1\<rparr>)"
proof -
  let ?st1 = "\<lparr>app = \<lparr>bot_speaking = True, interrupt_event = False\<rparr>,
         events = [StartSpeech, Synthesize ''Hi.'', SendAudio [1, 2, 3], CloseAudio],
         synth_calls = 1\<rparr>"
  have h: "chunk_loop generation_fails [] (gen generation_fails)
       (emit StartSpeech (turn_state_init\<lparr>app := start_bot_speech (app turn_state_init)\<rparr>))
     = (Some OtherError, ?st1)"
    by (simp add: generation_fails_def polly_up_def audio_ok_def turn_state_init_def
        AppState_init_def quiet_def emit_def others_run_def start_bot_speech_def
        was_interrupted_def split_buffer_def re_split_def match_delim_def
        is_space_def strip_def speak_text_def send_audio_to_client_def)
  have p: "strip (re_sub_star ''Hi.'') \<noteq> []
      \<and> polly synthesis_fails (synth_calls turn_state_init) (re_sub_star ''Hi.'') = Inl OtherError"
    by (simp add: synthesis_fails_def polly_down_def strip_def is_space_def)
  have a: "speak_text generation_fails apology ?st1
      = (None, ?st1\<lparr>events := events ?st1 @ [Synthesize apology, SendAudio [1, 2, 3], CloseAudio],
                      synth_calls := 2\<rparr>)"
    by (simp add: speak_text_def apology_clean generation_fails_def polly_up_def audio_ok_def
        quiet_def emit_def others_run_def was_interrupted_def send_audio_to_client_def)
  have g: "([], Inl OtherError) \<in> set (gen generation_fails)"
    by (simp add: generation_fails_def)
  have ib: "events (snd (invoke_bedrock generation_fails turn_state_init))
       = [StartSpeech, Synthesize ''Hi.'', SendAudio [1, 2, 3], CloseAudio,
          Synthesize apology, SendAudio [1, 2, 3], CloseAudio, StopSpeech]"
    using h a by (simp add: invoke_bedrock_def was_interrupted_def emit_def)
  show ?thesis
    using h p g ib
      C2_apology_on_generation_error [of generation_fails turn_state_init OtherError ?st1
        "''Hi.''" turn_state_init OtherError]
      C2_apology_on_generation_error [of synthesis_fails turn_state_init OtherError ?st1
        "''Hi.''" turn_state_init OtherError]
    by (simp add: was_interrupted_def turn_state_init_def)
qed

text \<open>
  C2 as stated fails: here the synthesis service raises on the only chunk of the turn, the
  turn is never interrupted, and no apology is synthesized; the turn consists of the start,
  the one failed request for \<^verbatim>\<open>"Hi."\<close> and the stop.
\<close>

theorem C2_synthesis_error_counterexample:
  "polly synthesis_fails 0 ''Hi.'' = Inl OtherError
   \<and> events (snd (invoke_bedrock synthesis_fails turn_state_init))
       = [StartSpeech, Synthesize ''Hi.'', StopSpeech]
   \<and> count_list (events (snd (invoke_bedrock synthesis_fails turn_state_init)))
        (Synthesize apology) = 0"
  by (simp add: invoke_bedrock_def synthesis_fails_def polly_down_def turn_state_init_def
      AppState_init_def quiet_def emit_def others_run_def start_bot_speech_def
      stop_bot_speech_def was_interrupted_def split_buffer_def re_split_def match_delim_def
      is_space_def strip_def speak_text_def apology_def)


section \<open>The chunk generator and the generated text\<close>

lemma filter_dropWhile_disjoint:
  "(\<And>x. Q x \<Longrightarrow> \<not> P x) \<Longrightarrow> filter P (dropWhile Q xs) = filter P xs"
  by (induction xs) auto

lemma filter_strip:
  assumes "\<And>c. is_space c \<Longrightarrow> \<not> P c"
  shows "filter P (strip s) = filter P s"
proof -
  have "filter P (strip s) = rev (filter P (dropWhile is_space (rev (dropWhile is_space s))))"
    by (simp add: strip_def rev_filter)
  also have "\<dots> = rev (filter P (rev (dropWhile is_space s)))"
    using assms by (simp add: filter_dropWhile_disjoint)
  also have "\<dots> = filter P (dropWhile is_space s)"
    by (simp add: rev_filter)
  also have "\<dots> = filter P s"
    using assms by (simp add: filter_dropWhile_disjoint)
  finally show ?thesis .
qed

lemma squeeze_strip: "squeeze (strip s) = squeeze s"
  unfolding squeeze_def by (rule filter_strip) simp


lemma squeeze_Nil [simp]: "squeeze [] = []"
  by (simp add: squeeze_def)

lemma core_Nil [simp]: "core [] = []"
  by (simp add: core_def)



lemma strip_empty_squeeze: "strip s = [] \<Longrightarrow> squeeze s = []"
  using squeeze_strip [of s] by (simp add: squeeze_def)











text \<open>
  C7. The stream of the two fragments \<^verbatim>\<open>"Hello, "\<close> and \<^verbatim>\<open>"world."\<close>, never interrupted,
  makes the chunk generator yield exactly the two chunks \<^verbatim>\<open>"Hello,"\<close> and \<^verbatim>\<open>"world."\<close>, in
  this order.
\<close>

theorem C7_hello_world:
  "to_chunk_generator [] [(False, ''Hello, ''), (False, ''world.'')] False = [''Hello,'', ''world.'']"
  by (simp add: split_buffer_def re_split_def match_delim_def is_space_def strip_def)




section \<open>Barge-in\<close>

lemma others_progress_fields [simp]:
  "is_transcribing (others_progress fe st) = is_transcribing st"
  "transcribe_stream (others_progress fe st) = transcribe_stream st"
  "transcript_handler (others_progress fe st) = transcript_handler st"
  "silence_frames (others_progress fe st) = silence_frames st"
  "frames_seen (others_progress fe st) = frames_seen st"
  "trace (others_progress fe st) = trace st"
  "(transcript_task (others_progress fe st) = None) = (transcript_task st = None)"
  by (simp_all add: others_progress_def finish_def)






section \<open>The greeting turn\<close>













section \<open>Counting silence\<close>



text \<open>A speech frame that is no barge-in is forwarded and sets the counter back to zero.\<close>

lemma speech_frame_resets:
  assumes "utterance_open st" "\<not> is_bot_speaking (app_state (others_progress fe st))"
    and "is_speech cfg (speech_prob fe) chunk" "send_audio_result fe = None"
  shows "process_frame cfg fe chunk st
     = (None, (log (SendAudioEvent chunk) (others_progress fe st))\<lparr>silence_frames := 0\<rparr>)"
  using assms by (simp add: utterance_open_def process_frame_def feed_frame_def Let_def log_def)











end
